theory Spec2Isabelle
  imports Main "HOL-Library.Signed_Division" "HOL-Library.Sublist"
begin

section \<open>The model\<close>

subsection \<open>The diff form of pgModeler: control state\<close>

text \<open>
  Source: \<^verbatim>\<open>libs/libgui/src/tools/modeldatabasediffform.cpp\<close>.  The form chains up to four
  phases, each hosted by a \<^verbatim>\<open>QThread\<close>: source import, import, diff and export.  The model
  keeps the members of \<^verbatim>\<open>ModelDatabaseDiffForm\<close> that decide the control flow and drops
  what only paints the dialog (labels, icons, the rows of the output tree).

  A thread pointer together with its helper pointer is one value of type \<open>thread\<close>:
  \<open>Null\<close> is \<^verbatim>\<open>nullptr\<close>, \<open>Created\<close> is a thread after \<^verbatim>\<open>new QThread\<close>, \<open>Running\<close> one
  after \<^verbatim>\<open>start()\<close>, \<open>Finished\<close> one after \<^verbatim>\<open>quit()\<close>.  \<^verbatim>\<open>quit()\<close> is taken to have
  stopped the thread when the next slot of the form runs; the helper's slot has returned
  by then, because the finishing signal is emitted at its end.
\<close>

datatype thread = Null | Created | Running | Finished

datatype thread_id = SrcImportThread | ImportThread | DiffThread | ExportThread

datatype msg_result = Accepted | Rejected | Cancelled

fun isRunning :: "thread \<Rightarrow> bool" where
  "isRunning t = (t = Running)"

fun start :: "thread \<Rightarrow> thread" where
  "start Null = Null"
| "start t = Running"

fun quit :: "thread \<Rightarrow> thread" where
  "quit Running = Finished"
| "quit t = t"

record form =
  src_import_thread :: thread
  import_thread :: thread
  diff_thread :: thread
  export_thread :: thread
  process_paused :: bool
  diff_progress :: int
  curr_step :: int
  total_steps :: int
  step_pb :: int
  step_pb_values :: "int list"
  progress_pb :: int
  sqlcode_txt :: string
  saved_file :: "string option"
  src_model_rb :: bool
  src_database_rb :: bool
  store_in_file_rb :: bool
  cancel_btn :: bool
  close_btn :: bool
  apply_on_server_btn_enabled :: bool
  apply_on_server_btn_visible :: bool
  event_loop_running :: bool

text \<open>
  \<^verbatim>\<open>QProgressBar::setValue\<close> leaves the value alone when the new one lies outside the
  range of the bar; the range is Qt's default, 0 to 100.
\<close>

definition pb_setValue :: "int \<Rightarrow> int \<Rightarrow> int" where
  "pb_setValue v cur = (if v = cur \<or> v > 100 \<or> v < 0 then cur else v)"

text \<open>
  \<^verbatim>\<open>step_pb->setValue(v)\<close>.  The field \<open>step_pb_values\<close> is the history of the step bar:
  every call appends the value that the bar shows after it, so that writes which follow
  one another within one slot are all on record.
\<close>

definition step_pb_setValue :: "int \<Rightarrow> form \<Rightarrow> form" where
  "step_pb_setValue v st =
     st\<lparr>step_pb := pb_setValue v (step_pb st),
        step_pb_values := step_pb_values st @ [pb_setValue v (step_pb st)]\<rparr>"

definition isThreadsRunning :: "form \<Rightarrow> bool" where
  "isThreadsRunning st =
     (isRunning (import_thread st) \<or> isRunning (src_import_thread st) \<or>
      isRunning (diff_thread st) \<or> isRunning (export_thread st))"

definition createThread :: "thread_id \<Rightarrow> form \<Rightarrow> form" where
  "createThread tid st =
     (if tid = SrcImportThread then st\<lparr>src_import_thread := Created\<rparr>
      else if tid = ImportThread then st\<lparr>import_thread := Created\<rparr>
      else if tid = DiffThread then st\<lparr>diff_thread := Created\<rparr>
      else st\<lparr>export_thread := Created\<rparr>)"

definition destroyThread :: "thread_id \<Rightarrow> form \<Rightarrow> form" where
  "destroyThread tid st =
     (if tid = SrcImportThread \<and> src_import_thread st \<noteq> Null then st\<lparr>src_import_thread := Null\<rparr>
      else if tid = ImportThread \<and> import_thread st \<noteq> Null then st\<lparr>import_thread := Null\<rparr>
      else if tid = DiffThread \<and> diff_thread st \<noteq> Null then st\<lparr>diff_thread := Null\<rparr>
      else if export_thread st \<noteq> Null then st\<lparr>export_thread := Null\<rparr>
      else st)"

definition clearOutput :: "form \<Rightarrow> form" where
  "clearOutput st =
     (step_pb_setValue 0 st)\<lparr>progress_pb := pb_setValue 0 (progress_pb st)\<rparr>"

definition resetButtons :: "form \<Rightarrow> form" where
  "resetButtons st = st\<lparr>cancel_btn := False, apply_on_server_btn_visible := False\<rparr>"

definition cancelOperation :: "bool \<Rightarrow> form \<Rightarrow> form" where
  "cancelOperation cancel_by_user st =
     (let st1 = (if isRunning (src_import_thread st)
                 then st\<lparr>src_import_thread := quit (src_import_thread st)\<rparr> else st);
          st2 = (if isRunning (import_thread st1)
                 then st1\<lparr>import_thread := quit (import_thread st1)\<rparr> else st1);
          st3 = (if isRunning (diff_thread st2)
                 then st2\<lparr>diff_thread := quit (diff_thread st2)\<rparr> else st2);
          st4 = (if isRunning (export_thread st3)
                 then st3\<lparr>export_thread := quit (export_thread st3)\<rparr> else st3)
      in (resetButtons st4)\<lparr>process_paused := False, close_btn := True\<rparr>)"

text \<open>
  \<^verbatim>\<open>closeEvent\<close> returns the form and whether the close event is still accepted
  (a \<^verbatim>\<open>QCloseEvent\<close> is accepted until \<^verbatim>\<open>ignore()\<close> is called).
\<close>

definition closeEvent :: "form \<Rightarrow> form \<times> bool" where
  "closeEvent st =
     (let (st1, accepted) =
            (if isThreadsRunning st then (st, False)
             else if process_paused st then (cancelOperation True st, True)
             else (st, True))
      in if \<not> isThreadsRunning st1 then (st1\<lparr>event_loop_running := False\<rparr>, accepted)
         else (st1, accepted))"

text \<open>
  \<^verbatim>\<open>importDatabase\<close> throws for a thread id that is no import thread: the result
  \<open>None\<close>.  Exceptions of the connection and of the catalog are outside the model.
\<close>

definition importDatabase :: "thread_id \<Rightarrow> form \<Rightarrow> form option" where
  "importDatabase tid st =
     (if tid \<noteq> SrcImportThread \<and> tid \<noteq> ImportThread then None
      else let st1 = createThread tid st
           in if tid = SrcImportThread
              then Some (st1\<lparr>src_import_thread := start (src_import_thread st1)\<rparr>)
              else Some (st1\<lparr>import_thread := start (import_thread st1)\<rparr>))"

definition diffModels :: "form \<Rightarrow> form" where
  "diffModels st =
     (let st1 = createThread DiffThread st;
          st2 = st1\<lparr>diff_progress := step_pb st1\<rparr>
      in st2\<lparr>diff_thread := start (diff_thread st2)\<rparr>)"

text \<open>
  \<^verbatim>\<open>exportDiff\<close>: the second argument is the button of the confirmation box, which is
  shown only when \<open>confirm\<close> holds: \<open>Accepted\<close> is "Apply diff", \<open>Rejected\<close> is
  "Preview diff", \<open>Cancelled\<close> the cancel button.
\<close>

definition exportDiff :: "bool \<Rightarrow> msg_result \<Rightarrow> form \<Rightarrow> form" where
  "exportDiff confirm res st =
     (let st1 = createThread ExportThread st
      in if \<not> confirm \<or> res = Accepted
         then st1\<lparr>apply_on_server_btn_enabled := True,
                  diff_progress := step_pb st1,
                  export_thread := start (export_thread st1),
                  close_btn := False\<rparr>
         else if res = Cancelled then cancelOperation True st1
         else st1\<lparr>process_paused := True, close_btn := True,
                  apply_on_server_btn_visible := True\<rparr>)"

definition finishDiff :: "form \<Rightarrow> form" where
  "finishDiff st =
     (let st1 = cancelOperation False st
      in (step_pb_setValue 100 st1)\<lparr>progress_pb := pb_setValue 100 (progress_pb st1)\<rparr>)"

definition saveDiffToFile :: "form \<Rightarrow> form" where
  "saveDiffToFile st =
     finishDiff
       (if sqlcode_txt st \<noteq> []
        then (step_pb_setValue 90 st)
               \<lparr>progress_pb := pb_setValue 100 (progress_pb st),
                saved_file := Some (sqlcode_txt st)\<rparr>
        else st)"

definition no_differences :: string where
  "no_differences = ''-- No differences were detected between model and database. --''"

definition handleImportFinished :: "form \<Rightarrow> form option" where
  "handleImportFinished st =
     (let st1 = st\<lparr>curr_step := curr_step st + 1\<rparr>
      in if isRunning (src_import_thread st1)
         then importDatabase ImportThread (st1\<lparr>src_import_thread := quit (src_import_thread st1)\<rparr>)
         else Some (diffModels (st1\<lparr>import_thread := quit (import_thread st1)\<rparr>)))"

text \<open>
  \<^verbatim>\<open>handleDiffFinished\<close>: the first argument is the script returned by
  \<^verbatim>\<open>diff_helper->getDiffDefinition()\<close>, the second the answer to the confirmation box
  of \<^verbatim>\<open>exportDiff\<close>, should it be shown.  The build is the one without
  \<^verbatim>\<open>DEMO_VERSION\<close>.
\<close>

definition handleDiffFinished :: "string \<Rightarrow> msg_result \<Rightarrow> form \<Rightarrow> form" where
  "handleDiffFinished diff_definition res st =
     (let st1 = st\<lparr>curr_step := curr_step st + 1, sqlcode_txt := diff_definition\<rparr>;
          st2 = st1\<lparr>diff_thread := quit (diff_thread st1)\<rparr>;
          st3 = (if store_in_file_rb st2 then saveDiffToFile st2
                 else if sqlcode_txt st2 \<noteq> [] then exportDiff True res st2
                 else finishDiff st2)
      in if sqlcode_txt st3 = [] then st3\<lparr>sqlcode_txt := no_differences\<rparr> else st3)"

definition handleExportFinished :: "form \<Rightarrow> form" where
  "handleExportFinished st = finishDiff (st\<lparr>export_thread := quit (export_thread st)\<rparr>)"

text \<open>
  The slot connected to \<^verbatim>\<open>apply_on_server_btn\<close> in \<^verbatim>\<open>createThread\<close>.  Every export
  thread created connects the slot once more; at a click the slots run one after another,
  and all but the first find the export thread running and only disable the button
  again.  The model runs the slot once.
\<close>

definition apply_on_server_clicked :: "form \<Rightarrow> form" where
  "apply_on_server_clicked st =
     (let st1 = st\<lparr>apply_on_server_btn_enabled := False\<rparr>
      in if \<not> isRunning (export_thread st1) then exportDiff False Rejected st1 else st1)"

text \<open>
  \<^verbatim>\<open>generateDiff\<close> past its prompt about the partial-diff options (when the prompt is
  cancelled the slot returns at once and the form is unchanged).
\<close>

definition generateDiff :: "form \<Rightarrow> form option" where
  "generateDiff st =
     (let st1 = destroyThread ExportThread (destroyThread DiffThread
                  (destroyThread ImportThread (destroyThread SrcImportThread st)));
          st2 = clearOutput st1;
          st3 = st2\<lparr>curr_step := 1\<rparr>;
          st4 = (if src_model_rb st3 then st3\<lparr>total_steps := 3\<rparr> else st3\<lparr>total_steps := 4\<rparr>)
      in case importDatabase (if src_database_rb st4 then SrcImportThread else ImportThread) st4 of
           None \<Rightarrow> None
         | Some st5 \<Rightarrow> Some (st5\<lparr>cancel_btn := True, close_btn := False\<rparr>))"

text \<open>A form as the constructor leaves it, comparing the loaded model with a database.\<close>

definition new_form :: form where
  "new_form =
     \<lparr>src_import_thread = Null, import_thread = Null, diff_thread = Null, export_thread = Null,
      process_paused = False, diff_progress = 0, curr_step = 0, total_steps = 0,
      step_pb = 0, step_pb_values = [], progress_pb = 0, sqlcode_txt = [], saved_file = None,
      src_model_rb = True, src_database_rb = False, store_in_file_rb = False,
      cancel_btn = False, close_btn = True,
      apply_on_server_btn_enabled = True, apply_on_server_btn_visible = False,
      event_loop_running = True\<rparr>"

subsection \<open>Matching mode of the partial-diff filters\<close>

text \<open>
  The state of \<^verbatim>\<open>pd_filter_wgt\<close> as the form reads it (\<^verbatim>\<open>getObjectFilters\<close>,
  \<^verbatim>\<open>isOnlyMatching\<close>, \<^verbatim>\<open>isMatchSignature\<close>, \<^verbatim>\<open>getForceObjectsFilter\<close>), and the four
  arguments of \<^verbatim>\<open>Catalog::setObjectFilters\<close> and \<^verbatim>\<open>DatabaseImportHelper::setObjectFilters\<close>.
\<close>

record ObjectsFilterWidget =
  getObjectFilters :: "string list"
  isOnlyMatching :: bool
  isMatchSignature :: bool
  getForceObjectsFilter :: "string list"

record object_filters =
  filters :: "string list"
  only_matching :: bool
  match_signature :: bool
  force_objects_filter :: "string list"

datatype search_attr = Signature | Name

text \<open>
  The part of \<^verbatim>\<open>importDatabase\<close> that configures the catalog.  \<open>rel_filters\<close> stands
  for \<^verbatim>\<open>ModelsDiffHelper::getRelationshipFilters\<close> applied to the filtered objects; it is
  not among the sources and stays a parameter.  The result is \<open>None\<close> when no filter is
  configured and \<^verbatim>\<open>setObjectFilters\<close> is not called.
\<close>

definition importDatabase_setObjectFilters ::
  "(bool \<Rightarrow> string list) \<Rightarrow> bool \<Rightarrow> bool \<Rightarrow> ObjectsFilterWidget \<Rightarrow> object_filters option" where
  "importDatabase_setObjectFilters rel_filters src_model_checked gen_filters_from_log_chk pd_filter_wgt =
     (let pd_filters = getObjectFilters pd_filter_wgt
      in if pd_filters \<noteq> []
         then let pd_filters1 =
                    (if src_model_checked
                     then pd_filters @
                          rel_filters (gen_filters_from_log_chk \<or> isMatchSignature pd_filter_wgt)
                     else pd_filters)
              in Some \<lparr>filters = pd_filters1,
                       only_matching = isOnlyMatching pd_filter_wgt,
                       match_signature =
                         (if gen_filters_from_log_chk then True else isMatchSignature pd_filter_wgt),
                       force_objects_filter = getForceObjectsFilter pd_filter_wgt\<rparr>
         else None)"

text \<open>
  \<^verbatim>\<open>applyPartialDiffFilters\<close> either searches the loaded model (the filters and the
  attribute handed to \<^verbatim>\<open>DatabaseModel::findObjects\<close>), or lists the objects of the source
  database, or does nothing.
\<close>

datatype filter_request =
  FindObjects "string list" search_attr
| ListFilteredObjects object_filters
| NoRequest

definition applyPartialDiffFilters ::
  "bool \<Rightarrow> bool \<Rightarrow> int \<Rightarrow> int \<Rightarrow> ObjectsFilterWidget \<Rightarrow> filter_request" where
  "applyPartialDiffFilters src_model_checked gen_filters_from_log_chk src_connections_idx src_database_idx
       pd_filter_wgt =
     (if src_model_checked
      then let search_attr =
                 (if gen_filters_from_log_chk \<or> isMatchSignature pd_filter_wgt
                  then Signature else Name)
           in FindObjects (getObjectFilters pd_filter_wgt) search_attr
      else if src_connections_idx > 0 \<and> src_database_idx > 0
      then ListFilteredObjects
             \<lparr>filters = getObjectFilters pd_filter_wgt,
              only_matching = isOnlyMatching pd_filter_wgt,
              match_signature = isMatchSignature pd_filter_wgt,
              force_objects_filter = getForceObjectsFilter pd_filter_wgt\<rparr>
      else NoRequest)"

definition name_filter_wgt :: ObjectsFilterWidget where
  "name_filter_wgt =
     \<lparr>getObjectFilters = [''table:public.t:wildcard''], isOnlyMatching = True,
      isMatchSignature = False, getForceObjectsFilter = []\<rparr>"

subsection \<open>The options about missing objects\<close>

text \<open>
  The two check boxes \<^verbatim>\<open>dont_drop_missing_objs_chk\<close> and
  \<^verbatim>\<open>drop_missing_cols_constr_chk\<close>: whether each is checked, and whether the second is
  enabled.  The constructor connects \<^verbatim>\<open>toggled(bool)\<close> of the first to
  \<^verbatim>\<open>setEnabled(bool)\<close> of the second; \<^verbatim>\<open>QAbstractButton::setChecked\<close> emits
  \<^verbatim>\<open>toggled\<close> only when the state changes, and a disabled check box takes no click.
\<close>

record missing_objs_opts =
  dont_drop_missing_objs_chk :: bool
  drop_missing_cols_constr_chk :: bool
  drop_missing_cols_constr_enabled :: bool

definition dont_drop_setChecked :: "bool \<Rightarrow> missing_objs_opts \<Rightarrow> missing_objs_opts" where
  "dont_drop_setChecked v opts =
     (if dont_drop_missing_objs_chk opts = v then opts
      else opts\<lparr>dont_drop_missing_objs_chk := v, drop_missing_cols_constr_enabled := v\<rparr>)"

definition drop_missing_cols_setChecked :: "bool \<Rightarrow> missing_objs_opts \<Rightarrow> missing_objs_opts" where
  "drop_missing_cols_setChecked v opts = opts\<lparr>drop_missing_cols_constr_chk := v\<rparr>"

definition click_dont_drop :: "missing_objs_opts \<Rightarrow> missing_objs_opts" where
  "click_dont_drop opts = dont_drop_setChecked (\<not> dont_drop_missing_objs_chk opts) opts"

definition click_drop_missing_cols :: "missing_objs_opts \<Rightarrow> missing_objs_opts" where
  "click_drop_missing_cols opts =
     (if drop_missing_cols_constr_enabled opts
      then drop_missing_cols_setChecked (\<not> drop_missing_cols_constr_chk opts) opts
      else opts)"

text \<open>
  A preset, as far as \<^verbatim>\<open>selectPreset\<close> reads it for these options: the values stored
  under \<^verbatim>\<open>Attributes::DontDropMissingObjs\<close> and \<^verbatim>\<open>Attributes::DropMissingColsConstrs\<close>.
  \<open>attr_true\<close> is the constant \<^verbatim>\<open>Attributes::True\<close>, which is not among the sources.
\<close>

record preset =
  DontDropMissingObjs :: string
  DropMissingColsConstrs :: string

definition selectPreset :: "string \<Rightarrow> preset \<Rightarrow> missing_objs_opts \<Rightarrow> missing_objs_opts" where
  "selectPreset attr_true conf opts =
     drop_missing_cols_setChecked
       (DontDropMissingObjs conf = attr_true \<and> DropMissingColsConstrs conf = attr_true)
       (dont_drop_setChecked (DontDropMissingObjs conf = attr_true) opts)"

text \<open>The answer "Check them and diff" to the prompt of \<^verbatim>\<open>generateDiff\<close>.\<close>

definition check_them_and_diff :: "missing_objs_opts \<Rightarrow> missing_objs_opts" where
  "check_them_and_diff opts = drop_missing_cols_setChecked True (dont_drop_setChecked True opts)"

datatype opts_event = ClickDontDrop | ClickDropMissingCols | SelectPreset preset | CheckThemAndDiff

fun opts_step :: "string \<Rightarrow> opts_event \<Rightarrow> missing_objs_opts \<Rightarrow> missing_objs_opts" where
  "opts_step attr_true ClickDontDrop opts = click_dont_drop opts"
| "opts_step attr_true ClickDropMissingCols opts = click_drop_missing_cols opts"
| "opts_step attr_true (SelectPreset conf) opts = selectPreset attr_true conf opts"
| "opts_step attr_true CheckThemAndDiff opts = check_them_and_diff opts"

fun opts_run :: "string \<Rightarrow> opts_event list \<Rightarrow> missing_objs_opts \<Rightarrow> missing_objs_opts" where
  "opts_run attr_true [] opts = opts"
| "opts_run attr_true (e # es) opts = opts_run attr_true es (opts_step attr_true e opts)"

text \<open>
  The values that \<^verbatim>\<open>diffModels\<close> hands to the diff helper for
  \<^verbatim>\<open>OptDontDropMissingObjs\<close> and \<^verbatim>\<open>OptDropMissingColsConstr\<close>: the check marks of the
  two boxes, whether the boxes are enabled or not.
\<close>

definition diffModels_options :: "missing_objs_opts \<Rightarrow> bool \<times> bool" where
  "diffModels_options opts =
     (dont_drop_missing_objs_chk opts, drop_missing_cols_constr_chk opts)"

text \<open>Both boxes unchecked, the second disabled.\<close>

definition opts_unchecked :: missing_objs_opts where
  "opts_unchecked =
     \<lparr>dont_drop_missing_objs_chk = False, drop_missing_cols_constr_chk = False,
      drop_missing_cols_constr_enabled = False\<rparr>"

subsection \<open>Filters generated from the change log\<close>

text \<open>
  \<^verbatim>\<open>generateFiltersFromChangelog\<close> takes the filters that
  \<^verbatim>\<open>DatabaseModel::getFiltersFromChangelog\<close> returns and, for each child type of a table,
  replaces in every filter each match of the regular expression
  \<^verbatim>\<open>(name)(\:)(.)+\<close> by the empty string, \<open>name\<close> being the schema name of the type.
  The expression is not anchored and its last group is greedy, so
  \<^verbatim>\<open>QString::replace\<close> cuts the string at the leftmost place where \<open>name\<close>, a colon and
  at least one more character follow.  Schema names are plain words, free of the special
  characters of \<^verbatim>\<open>QRegExp\<close>.  The names of the child types
  (\<^verbatim>\<open>BaseObject::getChildObjectTypes\<close>, \<^verbatim>\<open>BaseObject::getSchemaName\<close>) are not among
  the sources and stay a parameter.
\<close>

fun replace_child_filter :: "string \<Rightarrow> string \<Rightarrow> string" where
  "replace_child_filter name [] = []"
| "replace_child_filter name (c # cs) =
     (if prefix (name @ '':'') (c # cs) \<and> length name + 1 < length (c # cs) then []
      else c # replace_child_filter name cs)"

fun replaceInStrings :: "string list \<Rightarrow> string list \<Rightarrow> string list" where
  "replaceInStrings [] strs = strs"
| "replaceInStrings (name # names) strs =
     replaceInStrings names (map (replace_child_filter name) strs)"

text \<open>
  The result is the list handed to \<^verbatim>\<open>pd_filter_wgt->addFilters\<close>, or \<open>None\<close> when there
  is no source model and the slot returns at once.
\<close>

definition generateFiltersFromChangelog ::
  "bool \<Rightarrow> string list \<Rightarrow> string list \<Rightarrow> string list option" where
  "generateFiltersFromChangelog has_source_model tab_obj_types changelog_filters =
     (if \<not> has_source_model then None
      else Some (filter (\<lambda>f. f \<noteq> []) (replaceInStrings tab_obj_types changelog_filters)))"

text \<open>
  A filter has the form \<^verbatim>\<open>type:pattern:mode\<close>.  It targets a child of a table when it
  starts with the schema name of a child type and a colon, followed by a pattern.
  \<open>mentions name f\<close> says that the expression for \<open>name\<close> matches somewhere in \<open>f\<close>.
\<close>

definition child_filter :: "string list \<Rightarrow> string \<Rightarrow> bool" where
  "child_filter tab_obj_types f =
     (\<exists>name \<in> set tab_obj_types. prefix (name @ '':'') f \<and> length name + 1 < length f)"

fun mentions :: "string \<Rightarrow> string \<Rightarrow> bool" where
  "mentions name [] = False"
| "mentions name (c # cs) =
     ((prefix (name @ '':'') (c # cs) \<and> length name + 1 < length (c # cs)) \<or> mentions name cs)"

definition table_child_types :: "string list" where
  "table_child_types = [''column'', ''constraint'', ''trigger'', ''rule'', ''index'']"

subsection \<open>A diff run\<close>

text \<open>
  \<^verbatim>\<open>updateProgress\<close>, as far as the two progress bars go (the message, the icon and the
  rows added to the output tree are left out).  The divisions are those of C++ on
  \<^verbatim>\<open>int\<close>, which truncate towards zero; no sum here can leave the range of a 32-bit
  \<^verbatim>\<open>int\<close>, since \<open>diff_progress\<close> is a value of the step bar.
\<close>

definition updateProgress :: "int \<Rightarrow> form \<Rightarrow> form" where
  "updateProgress progress st =
     (let progress_aux =
            (if isRunning (src_import_thread st) then progress sdiv 5
             else if isRunning (import_thread st)
                  then (if src_model_rb st then progress sdiv 4 else 20 + progress sdiv 5)
             else if isRunning (diff_thread st) then diff_progress st + progress sdiv 3
             else if isRunning (export_thread st) then diff_progress st + progress sdiv 3
             else 0);
          st1 = (if progress_aux > step_pb st
                 then step_pb_setValue progress_aux st else st)
      in st1\<lparr>progress_pb := pb_setValue progress (progress_pb st1)\<rparr>)"

text \<open>
  What can happen to the form during its life: the click on the generate button, the
  signals of the helpers (\<^verbatim>\<open>s_importFinished\<close>, \<^verbatim>\<open>s_diffFinished\<close>,
  \<^verbatim>\<open>s_exportFinished\<close>, \<^verbatim>\<open>s_progressUpdated\<close>, the abort signals that reach
  \<^verbatim>\<open>captureThreadError\<close>), the cancel button, the apply button and a close request.
  A helper sends its finishing signal only while its thread runs, and the apply button
  takes a click only while it is visible and enabled; \<open>step\<close> is \<open>None\<close> for an event
  that cannot happen in the state, or whose slot throws.
\<close>

datatype event =
  GenerateDiff
| ImportFinished
| DiffFinished string msg_result
| ExportFinished
| UpdateProgress int
| CancelClicked
| ThreadError
| ApplyClicked
| CloseRequested

fun step :: "event \<Rightarrow> form \<Rightarrow> form option" where
  "step GenerateDiff st = generateDiff st"
| "step ImportFinished st =
     (if isRunning (src_import_thread st) \<or> isRunning (import_thread st)
      then handleImportFinished st else None)"
| "step (DiffFinished script res) st =
     (if isRunning (diff_thread st) then Some (handleDiffFinished script res st) else None)"
| "step ExportFinished st =
     (if isRunning (export_thread st) then Some (handleExportFinished st) else None)"
| "step (UpdateProgress p) st = Some (updateProgress p st)"
| "step CancelClicked st = Some (cancelOperation True st)"
| "step ThreadError st = Some (cancelOperation False st)"
| "step ApplyClicked st =
     (if apply_on_server_btn_visible st \<and> apply_on_server_btn_enabled st
      then Some (apply_on_server_clicked st) else None)"
| "step CloseRequested st = Some (fst (closeEvent st))"

fun run :: "event list \<Rightarrow> form \<Rightarrow> form option" where
  "run [] st = Some st"
| "run (e # es) st = (case step e st of None \<Rightarrow> None | Some st1 \<Rightarrow> run es st1)"

text \<open>
  The phases of a run between two databases follow one another: the import thread exists
  only once the source import thread has finished, the diff thread only once the import
  thread has finished too.
\<close>

definition sequential :: "form \<Rightarrow> bool" where
  "sequential st =
     ((src_import_thread st = Running \<or> src_import_thread st = Finished) \<and>
      (import_thread st \<noteq> Null \<longrightarrow>
         src_import_thread st = Finished \<and>
         (import_thread st = Running \<or> import_thread st = Finished)) \<and>
      (diff_thread st \<noteq> Null \<longrightarrow>
         import_thread st = Finished \<and>
         (diff_thread st = Running \<or> diff_thread st = Finished)))"

text \<open>
  What holds of the step bar during a run: it stays within the range of the bar, at most
  one of the two imports and the diff runs, the apply button is hidden while one of them
  runs, and each phase keeps the bar below the share it may fill.
\<close>

definition progress_inv :: "form \<Rightarrow> bool" where
  "progress_inv st =
     (step_pb st \<le> 100 \<and>
      \<not> (src_import_thread st = Running \<and> import_thread st = Running) \<and>
      \<not> (src_import_thread st = Running \<and> diff_thread st = Running) \<and>
      \<not> (import_thread st = Running \<and> diff_thread st = Running) \<and>
      (apply_on_server_btn_visible st \<longrightarrow>
         src_import_thread st \<noteq> Running \<and> import_thread st \<noteq> Running \<and>
         diff_thread st \<noteq> Running) \<and>
      (src_import_thread st = Running \<longrightarrow> step_pb st \<le> 20) \<and>
      (import_thread st = Running \<longrightarrow> step_pb st \<le> 40) \<and>
      (diff_thread st = Running \<longrightarrow> diff_progress st \<le> 40 \<and> step_pb st \<le> 73))"

text \<open>
  The history of the step bar during a run, \<open>init\<close> being the history up to the first
  write of the run: nothing of it is lost, the values from that first write on are in
  ascending order, and the last value written is the one the bar shows.
\<close>

definition bar_history :: "int list \<Rightarrow> form \<Rightarrow> bool" where
  "bar_history init st =
     (init \<noteq> [] \<and>
      prefix init (step_pb_values st) \<and>
      sorted (drop (length init - 1) (step_pb_values st)) \<and>
      last (step_pb_values st) = step_pb st)"

text \<open>A form that compares two databases.\<close>

definition db_form :: form where
  "db_form = new_form\<lparr>src_model_rb := False, src_database_rb := True\<rparr>"

text \<open>A form that stores the diff in a file.\<close>

definition file_form :: form where
  "file_form = new_form\<lparr>store_in_file_rb := True\<rparr>"

subsection \<open>The log of ignored errors\<close>
















section \<open>The properties\<close>

subsection \<open>Closing the form\<close>

lemma cancelOperation_not_running:
  "\<not> isThreadsRunning (cancelOperation b st)"
  by (simp add: cancelOperation_def resetButtons_def isThreadsRunning_def Let_def)

lemma cancelOperation_idle:
  "\<not> isThreadsRunning st \<Longrightarrow>
   cancelOperation b st = (resetButtons st)\<lparr>process_paused := False, close_btn := True\<rparr>"
  by (simp add: cancelOperation_def isThreadsRunning_def Let_def)

text \<open>
  C9.  While one of the four threads runs, \<^verbatim>\<open>closeEvent\<close> ignores the close event and
  leaves the form, its event loop included, as it was.  When none runs, the event stays
  accepted and the event loop is quit; if the process was paused, the operation is
  cancelled first.  So the event loop is quit by a close request only when no thread runs.
\<close>

theorem closeEvent_threads:
  "(isThreadsRunning st \<longrightarrow> closeEvent st = (st, False)) \<and>
   (\<not> isThreadsRunning st \<longrightarrow>
      closeEvent st =
        ((if process_paused st then cancelOperation True st else st)\<lparr>event_loop_running := False\<rparr>,
         True)) \<and>
   (event_loop_running st \<and> \<not> event_loop_running (fst (closeEvent st))
      \<longrightarrow> \<not> isThreadsRunning st)"
proof (cases "isThreadsRunning st")
  case True
  then show ?thesis by (simp add: closeEvent_def)
next
  case False
  then show ?thesis
    by (simp add: closeEvent_def cancelOperation_not_running)
qed

theorem closeEvent_threads_witness:
  "closeEvent (new_form\<lparr>export_thread := Running\<rparr>) = (new_form\<lparr>export_thread := Running\<rparr>, False) \<and>
   closeEvent (new_form\<lparr>export_thread := Created, process_paused := True\<rparr>) =
     (new_form\<lparr>export_thread := Created, process_paused := False, event_loop_running := False\<rparr>, True)"
proof -
  let ?a = "new_form\<lparr>export_thread := Running\<rparr>"
  let ?b = "new_form\<lparr>export_thread := Created, process_paused := True\<rparr>"
  have r: "isThreadsRunning ?a"
    by (simp add: isThreadsRunning_def)
  have i: "\<not> isThreadsRunning ?b"
    by (simp add: isThreadsRunning_def new_form_def)
  have p: "process_paused ?b"
    by simp
  have c: "cancelOperation True ?b = new_form\<lparr>export_thread := Created, process_paused := False\<rparr>"
    unfolding cancelOperation_idle [OF i] by (simp add: resetButtons_def new_form_def)
  from closeEvent_threads [of ?a] r have 1: "closeEvent ?a = (?a, False)"
    by blast
  from closeEvent_threads [of ?b] i
  have "closeEvent ?b =
      ((if process_paused ?b then cancelOperation True ?b else ?b)\<lparr>event_loop_running := False\<rparr>, True)"
    by blast
  with p c have 2: "closeEvent ?b =
      (new_form\<lparr>export_thread := Created, process_paused := False, event_loop_running := False\<rparr>, True)"
    by simp
  from 1 2 show ?thesis
    by (rule conjI)
qed

subsection \<open>Preview instead of application, and the empty script\<close>

lemma cancelOperation_eq:
  "cancelOperation b st =
     st\<lparr>src_import_thread := quit (src_import_thread st),
        import_thread := quit (import_thread st),
        diff_thread := quit (diff_thread st),
        export_thread := quit (export_thread st),
        cancel_btn := False, apply_on_server_btn_visible := False,
        process_paused := False, close_btn := True\<rparr>"
proof -
  have "\<And>t. \<not> isRunning t \<Longrightarrow> quit t = t"
    by (case_tac t) simp_all
  then show ?thesis
    by (simp add: cancelOperation_def resetButtons_def Let_def)
qed

lemma finishDiff_eq:
  "finishDiff st =
     st\<lparr>src_import_thread := quit (src_import_thread st),
        import_thread := quit (import_thread st),
        diff_thread := quit (diff_thread st),
        export_thread := quit (export_thread st),
        cancel_btn := False, apply_on_server_btn_visible := False,
        process_paused := False, close_btn := True,
        step_pb := 100, step_pb_values := step_pb_values st @ [100], progress_pb := 100\<rparr>"
  by (simp add: finishDiff_def cancelOperation_eq step_pb_setValue_def pb_setValue_def Let_def)

lemma quit_not_running: "\<not> isRunning (quit t)"
  by (cases t) simp_all

lemma quit_quit: "quit (quit t) = quit t"
  by (cases t) simp_all

text \<open>
  C3.  When the script is not empty and the diff is to be applied on the server,
  \<^verbatim>\<open>handleDiffFinished\<close> asks for confirmation.  On the answer "Preview diff" the export
  thread is created and not started, the script stays in the preview, the process is
  paused and the apply button is shown; a later click on that button starts the export
  of the same script.  In general \<^verbatim>\<open>exportDiff\<close> leaves the export thread running exactly
  when it was called without confirmation (the apply button) or the box was accepted.
\<close>

theorem exportDiff_preview:
  "(script \<noteq> [] \<and> \<not> store_in_file_rb st \<longrightarrow>
      export_thread (handleDiffFinished script Rejected st) = Created \<and>
      sqlcode_txt (handleDiffFinished script Rejected st) = script \<and>
      process_paused (handleDiffFinished script Rejected st) \<and>
      apply_on_server_btn_visible (handleDiffFinished script Rejected st) \<and>
      isRunning (export_thread (apply_on_server_clicked (handleDiffFinished script Rejected st))) \<and>
      sqlcode_txt (apply_on_server_clicked (handleDiffFinished script Rejected st)) = script) \<and>
   export_thread (exportDiff True Rejected st) = Created \<and>
   sqlcode_txt (exportDiff confirm res st) = sqlcode_txt st \<and>
   isRunning (export_thread (exportDiff confirm res st)) = (\<not> confirm \<or> res = Accepted)"
proof -
  have e: "export_thread (exportDiff True Rejected st) = Created" for st
    by (simp add: exportDiff_def createThread_def Let_def)
  have s: "sqlcode_txt (exportDiff c m st) = sqlcode_txt st" for st c m
    by (simp add: exportDiff_def createThread_def cancelOperation_eq Let_def)
  have r: "isRunning (export_thread (exportDiff confirm res st)) = (\<not> confirm \<or> res = Accepted)"
    by (simp add: exportDiff_def createThread_def cancelOperation_eq Let_def)
  have h: "handleDiffFinished script Rejected st =
      exportDiff True Rejected
        (st\<lparr>curr_step := curr_step st + 1, sqlcode_txt := script,
            diff_thread := quit (diff_thread st)\<rparr>)"
    if "script \<noteq> []" "\<not> store_in_file_rb st"
    using that by (simp add: handleDiffFinished_def Let_def s)
  have a: "apply_on_server_clicked (exportDiff True Rejected st) =
      exportDiff False Rejected ((exportDiff True Rejected st)\<lparr>apply_on_server_btn_enabled := False\<rparr>)"
    for st
    by (simp add: apply_on_server_clicked_def Let_def e)
  have p: "process_paused (exportDiff True Rejected st) \<and>
      apply_on_server_btn_visible (exportDiff True Rejected st)" for st
    by (simp add: exportDiff_def createThread_def Let_def)
  have x: "isRunning (export_thread (exportDiff False Rejected st))" for st
    by (simp add: exportDiff_def createThread_def Let_def)
  have m: "script \<noteq> [] \<and> \<not> store_in_file_rb st \<longrightarrow>
      export_thread (handleDiffFinished script Rejected st) = Created \<and>
      sqlcode_txt (handleDiffFinished script Rejected st) = script \<and>
      process_paused (handleDiffFinished script Rejected st) \<and>
      apply_on_server_btn_visible (handleDiffFinished script Rejected st) \<and>
      isRunning (export_thread (apply_on_server_clicked (handleDiffFinished script Rejected st))) \<and>
      sqlcode_txt (apply_on_server_clicked (handleDiffFinished script Rejected st)) = script"
    by (simp add: h a s p x e del: isRunning.simps)
  from m e [of st] s [of confirm res st] r show ?thesis
    by blast
qed

theorem exportDiff_preview_witness:
  "export_thread (handleDiffFinished ''CREATE TABLE t();'' Rejected (new_form\<lparr>diff_thread := Running\<rparr>))
     = Created \<and>
   sqlcode_txt (handleDiffFinished ''CREATE TABLE t();'' Rejected (new_form\<lparr>diff_thread := Running\<rparr>))
     = ''CREATE TABLE t();'' \<and>
   isRunning (export_thread (exportDiff True Accepted new_form)) \<and>
   isRunning (export_thread (exportDiff False Rejected new_form))"
proof -
  have 1: "''CREATE TABLE t();'' \<noteq> [] \<and> \<not> store_in_file_rb (new_form\<lparr>diff_thread := Running\<rparr>)"
    by (simp add: new_form_def)
  from exportDiff_preview [of "''CREATE TABLE t();''" "new_form\<lparr>diff_thread := Running\<rparr>"] 1
  have 2: "export_thread (handleDiffFinished ''CREATE TABLE t();'' Rejected (new_form\<lparr>diff_thread := Running\<rparr>))
     = Created \<and>
   sqlcode_txt (handleDiffFinished ''CREATE TABLE t();'' Rejected (new_form\<lparr>diff_thread := Running\<rparr>))
     = ''CREATE TABLE t();''"
    by blast
  from exportDiff_preview [of _ new_form True Accepted]
  have 3: "isRunning (export_thread (exportDiff True Accepted new_form))"
    by blast
  from exportDiff_preview [of _ new_form False Rejected]
  have 4: "isRunning (export_thread (exportDiff False Rejected new_form))"
    by blast
  from 2 3 4 show ?thesis
    by blast
qed

text \<open>
  C8.  When the diff helper returns the empty script, \<^verbatim>\<open>handleDiffFinished\<close> never
  reaches \<^verbatim>\<open>exportDiff\<close>, whatever the output mode and whatever a confirmation box
  would have answered: the export thread is neither created nor started, nothing is
  written to a file, the run is finished (no thread runs, both progress bars stand at
  100, the process is not paused) and the preview holds the placeholder comment.
\<close>

theorem handleDiffFinished_empty:
  "handleDiffFinished [] res st =
     st\<lparr>src_import_thread := quit (src_import_thread st),
        import_thread := quit (import_thread st),
        diff_thread := quit (diff_thread st),
        export_thread := quit (export_thread st),
        cancel_btn := False, apply_on_server_btn_visible := False,
        process_paused := False, close_btn := True,
        step_pb := 100, step_pb_values := step_pb_values st @ [100], progress_pb := 100,
        curr_step := curr_step st + 1,
        sqlcode_txt := ''-- No differences were detected between model and database. --''\<rparr> \<and>
   \<not> isThreadsRunning (handleDiffFinished [] res st) \<and>
   (export_thread (handleDiffFinished [] res st) = Created) = (export_thread st = Created) \<and>
   (export_thread (handleDiffFinished [] res st) = Null) = (export_thread st = Null) \<and>
   saved_file (handleDiffFinished [] res st) = saved_file st"
proof -
  have 1: "handleDiffFinished [] res st =
     st\<lparr>src_import_thread := quit (src_import_thread st),
        import_thread := quit (import_thread st),
        diff_thread := quit (diff_thread st),
        export_thread := quit (export_thread st),
        cancel_btn := False, apply_on_server_btn_visible := False,
        process_paused := False, close_btn := True,
        step_pb := 100, step_pb_values := step_pb_values st @ [100], progress_pb := 100,
        curr_step := curr_step st + 1,
        sqlcode_txt := ''-- No differences were detected between model and database. --''\<rparr>"
    by (simp add: handleDiffFinished_def saveDiffToFile_def finishDiff_eq no_differences_def
        quit_quit Let_def)
  have 2: "(quit t = Created) = (t = Created)" "(quit t = Null) = (t = Null)" for t
    by (cases t; simp)+
  show ?thesis
    unfolding 1 by (simp add: isThreadsRunning_def quit_not_running 2 del: isRunning.simps)
qed

theorem handleDiffFinished_empty_witness:
  "sqlcode_txt (handleDiffFinished [] Accepted (new_form\<lparr>diff_thread := Running\<rparr>)) =
     ''-- No differences were detected between model and database. --'' \<and>
   export_thread (handleDiffFinished [] Accepted (new_form\<lparr>diff_thread := Running\<rparr>)) = Null \<and>
   diff_thread (handleDiffFinished [] Accepted (new_form\<lparr>diff_thread := Running\<rparr>)) = Finished \<and>
   step_pb (handleDiffFinished [] Accepted (new_form\<lparr>diff_thread := Running\<rparr>)) = 100"
proof -
  from handleDiffFinished_empty [of Accepted "new_form\<lparr>diff_thread := Running\<rparr>"]
  have "handleDiffFinished [] Accepted (new_form\<lparr>diff_thread := Running\<rparr>) =
     (new_form\<lparr>diff_thread := Running\<rparr>)
       \<lparr>src_import_thread := quit (src_import_thread (new_form\<lparr>diff_thread := Running\<rparr>)),
        import_thread := quit (import_thread (new_form\<lparr>diff_thread := Running\<rparr>)),
        diff_thread := quit (diff_thread (new_form\<lparr>diff_thread := Running\<rparr>)),
        export_thread := quit (export_thread (new_form\<lparr>diff_thread := Running\<rparr>)),
        cancel_btn := False, apply_on_server_btn_visible := False,
        process_paused := False, close_btn := True,
        step_pb := 100,
        step_pb_values := step_pb_values (new_form\<lparr>diff_thread := Running\<rparr>) @ [100],
        progress_pb := 100,
        curr_step := curr_step (new_form\<lparr>diff_thread := Running\<rparr>) + 1,
        sqlcode_txt := ''-- No differences were detected between model and database. --''\<rparr>"
    by blast
  then show ?thesis
    by (simp add: new_form_def)
qed

subsection \<open>Matching mode of the partial-diff filters\<close>

text \<open>
  C1.  Whenever \<^verbatim>\<open>importDatabase\<close> hands filters to the catalog, the matching mode it
  passes is signature matching if the change-log option is checked, whatever the widget
  says, and the mode chosen in the widget if the option is not checked.  The search of
  the loaded model in \<^verbatim>\<open>applyPartialDiffFilters\<close> follows the same rule: the attribute is
  the signature if the option is checked, and otherwise the signature or the name as the
  widget says.  The mode follows the check box as it stands at the call;
  \<^verbatim>\<open>enablePartialDiff\<close>, which \<^verbatim>\<open>resetButtons\<close> calls at the end of every run, unchecks it.
\<close>

theorem changelog_forces_signature:
  "(importDatabase_setObjectFilters rel src_model gen w = Some c \<longrightarrow>
      (gen \<longrightarrow> match_signature c) \<and>
      (\<not> gen \<longrightarrow> match_signature c = isMatchSignature w)) \<and>
   (gen \<longrightarrow> applyPartialDiffFilters True gen ci di w = FindObjects (getObjectFilters w) Signature) \<and>
   (\<not> gen \<longrightarrow> applyPartialDiffFilters True gen ci di w =
      FindObjects (getObjectFilters w) (if isMatchSignature w then Signature else Name))"
  by (auto simp: importDatabase_setObjectFilters_def applyPartialDiffFilters_def Let_def
      split: if_splits)

theorem changelog_forces_signature_witness:
  "importDatabase_setObjectFilters (\<lambda>b. []) True True name_filter_wgt =
     Some \<lparr>filters = [''table:public.t:wildcard''], only_matching = True,
           match_signature = True, force_objects_filter = []\<rparr> \<and>
   match_signature
     (the (importDatabase_setObjectFilters (\<lambda>b. []) True False name_filter_wgt)) = False \<and>
   applyPartialDiffFilters True True 0 0 name_filter_wgt =
     FindObjects [''table:public.t:wildcard''] Signature \<and>
   applyPartialDiffFilters True False 0 0 name_filter_wgt =
     FindObjects [''table:public.t:wildcard''] Name"
proof -
  let ?c = "\<lparr>filters = [''table:public.t:wildcard''], only_matching = True,
           match_signature = True, force_objects_filter = []\<rparr>"
  let ?d = "\<lparr>filters = [''table:public.t:wildcard''], only_matching = True,
           match_signature = False, force_objects_filter = []\<rparr>"
  have 1: "importDatabase_setObjectFilters (\<lambda>b. []) True True name_filter_wgt = Some ?c"
    by (simp add: importDatabase_setObjectFilters_def name_filter_wgt_def)
  have 2: "importDatabase_setObjectFilters (\<lambda>b. []) True False name_filter_wgt = Some ?d"
    by (simp add: importDatabase_setObjectFilters_def name_filter_wgt_def)
  have 3: "isMatchSignature name_filter_wgt = False"
    "getObjectFilters name_filter_wgt = [''table:public.t:wildcard'']"
    by (simp_all add: name_filter_wgt_def)
  from changelog_forces_signature [of "\<lambda>b. []" True True name_filter_wgt ?c 0 0] 1
  have 4: "match_signature ?c \<and>
      applyPartialDiffFilters True True 0 0 name_filter_wgt =
        FindObjects (getObjectFilters name_filter_wgt) Signature"
    by blast
  from changelog_forces_signature [of "\<lambda>b. []" True False name_filter_wgt ?d 0 0] 2
  have 5: "match_signature ?d = isMatchSignature name_filter_wgt \<and>
      applyPartialDiffFilters True False 0 0 name_filter_wgt =
        FindObjects (getObjectFilters name_filter_wgt)
          (if isMatchSignature name_filter_wgt then Signature else Name)"
    by blast
  from 1 2 4 5 show ?thesis
    by (simp add: 3)
qed

subsection \<open>The options about missing objects\<close>

lemmas opts_defs =
  click_dont_drop_def click_drop_missing_cols_def selectPreset_def check_them_and_diff_def
  dont_drop_setChecked_def drop_missing_cols_setChecked_def

lemma opts_step_enabled:
  "drop_missing_cols_constr_enabled opts = dont_drop_missing_objs_chk opts \<Longrightarrow>
   drop_missing_cols_constr_enabled (opts_step t e opts) =
     dont_drop_missing_objs_chk (opts_step t e opts)"
  by (cases e) (auto simp: opts_defs)

lemma opts_run_enabled:
  "drop_missing_cols_constr_enabled opts = dont_drop_missing_objs_chk opts \<Longrightarrow>
   drop_missing_cols_constr_enabled (opts_run t es opts) =
     dont_drop_missing_objs_chk (opts_run t es opts)"
  by (induction es arbitrary: opts) (simp_all add: opts_step_enabled)

lemma opts_step_switch_on:
  "drop_missing_cols_constr_enabled opts = dont_drop_missing_objs_chk opts \<Longrightarrow>
   \<not> drop_missing_cols_constr_chk opts \<Longrightarrow>
   drop_missing_cols_constr_chk (opts_step t e opts) \<Longrightarrow>
   dont_drop_missing_objs_chk (opts_step t e opts)"
  by (cases e) (auto simp: opts_defs split: if_splits)

text \<open>
  C5, as stated, fails.  From both boxes unchecked, check DontDropMissingObjs, check
  DropMissingColsConstr and uncheck DontDropMissingObjs again: the second box is greyed
  out and keeps its check mark, and \<^verbatim>\<open>diffModels\<close> hands the diff helper
  DontDropMissingObjs unset together with DropMissingColsConstr set.
\<close>

theorem drop_missing_cols_set_counterexample:
  "drop_missing_cols_constr_enabled opts_unchecked = dont_drop_missing_objs_chk opts_unchecked \<and>
   diffModels_options
     (opts_run ''true'' [ClickDontDrop, ClickDropMissingCols, ClickDontDrop] opts_unchecked) =
     (False, True)"
  by (simp add: opts_defs opts_unchecked_def diffModels_options_def)

text \<open>
  C5, amended.  Let the form start with the second check box enabled exactly when the
  first is checked (the initial state comes from the \<^verbatim>\<open>.ui\<close> file).  Then after any
  sequence of clicks on the two boxes, preset selections and "Check them and diff"
  answers, the box of DropMissingColsConstr is enabled exactly when DontDropMissingObjs
  is checked; while DontDropMissingObjs is unchecked a click on the disabled box changes
  nothing; restoring a preset checks DropMissingColsConstr exactly when the preset sets
  both options; no step takes an unchecked DropMissingColsConstr to a checked one
  without DontDropMissingObjs being checked afterwards; and a click on
  DontDropMissingObjs leaves the check mark of DropMissingColsConstr as it is.
\<close>

theorem drop_missing_cols_needs_dont_drop:
  assumes "drop_missing_cols_constr_enabled opts0 = dont_drop_missing_objs_chk opts0"
  shows "drop_missing_cols_constr_enabled (opts_run t es opts0) =
           dont_drop_missing_objs_chk (opts_run t es opts0) \<and>
         (\<not> dont_drop_missing_objs_chk (opts_run t es opts0) \<longrightarrow>
            click_drop_missing_cols (opts_run t es opts0) = opts_run t es opts0) \<and>
         drop_missing_cols_constr_chk (selectPreset t conf (opts_run t es opts0)) =
           (DontDropMissingObjs conf = t \<and> DropMissingColsConstrs conf = t) \<and>
         dont_drop_missing_objs_chk (selectPreset t conf (opts_run t es opts0)) =
           (DontDropMissingObjs conf = t) \<and>
         (\<not> drop_missing_cols_constr_chk (opts_run t es opts0) \<and>
          drop_missing_cols_constr_chk (opts_step t e (opts_run t es opts0)) \<longrightarrow>
            dont_drop_missing_objs_chk (opts_step t e (opts_run t es opts0))) \<and>
         drop_missing_cols_constr_chk (click_dont_drop (opts_run t es opts0)) =
           drop_missing_cols_constr_chk (opts_run t es opts0)"
proof -
  let ?o = "opts_run t es opts0"
  have inv: "drop_missing_cols_constr_enabled ?o = dont_drop_missing_objs_chk ?o"
    using assms by (rule opts_run_enabled)
  have click: "\<not> dont_drop_missing_objs_chk ?o \<longrightarrow> click_drop_missing_cols ?o = ?o"
    using inv by (simp add: click_drop_missing_cols_def)
  have p1: "drop_missing_cols_constr_chk (selectPreset t conf ?o) =
      (DontDropMissingObjs conf = t \<and> DropMissingColsConstrs conf = t)"
    by (simp add: selectPreset_def drop_missing_cols_setChecked_def)
  have p2: "dont_drop_missing_objs_chk (selectPreset t conf ?o) = (DontDropMissingObjs conf = t)"
    by (auto simp: selectPreset_def drop_missing_cols_setChecked_def dont_drop_setChecked_def)
  have sw: "\<not> drop_missing_cols_constr_chk ?o \<and> drop_missing_cols_constr_chk (opts_step t e ?o)
      \<longrightarrow> dont_drop_missing_objs_chk (opts_step t e ?o)"
    using opts_step_switch_on [OF inv] by blast
  have keep: "drop_missing_cols_constr_chk (click_dont_drop ?o) = drop_missing_cols_constr_chk ?o"
    by (simp add: click_dont_drop_def dont_drop_setChecked_def)
  from inv click p1 p2 sw keep show ?thesis
    by blast
qed

theorem drop_missing_cols_needs_dont_drop_witness:
  "click_drop_missing_cols (opts_run ''true'' [ClickDropMissingCols] opts_unchecked) = opts_unchecked \<and>
   \<not> drop_missing_cols_constr_chk
       (selectPreset ''true'' \<lparr>DontDropMissingObjs = ''false'', DropMissingColsConstrs = ''true''\<rparr>
          (opts_run ''true'' [ClickDropMissingCols] opts_unchecked)) \<and>
   dont_drop_missing_objs_chk (opts_step ''true'' CheckThemAndDiff
       (opts_run ''true'' [ClickDropMissingCols] opts_unchecked))"
proof -
  let ?o = "opts_run ''true'' [ClickDropMissingCols] opts_unchecked"
  let ?p = "\<lparr>DontDropMissingObjs = ''false'', DropMissingColsConstrs = ''true''\<rparr>"
  have a: "drop_missing_cols_constr_enabled opts_unchecked = dont_drop_missing_objs_chk opts_unchecked"
    by (simp add: opts_unchecked_def)
  have o: "?o = opts_unchecked"
    by (simp add: click_drop_missing_cols_def opts_unchecked_def)
  have n: "\<not> dont_drop_missing_objs_chk ?o" "\<not> drop_missing_cols_constr_chk ?o"
    unfolding o by (simp_all add: opts_unchecked_def)
  have s: "drop_missing_cols_constr_chk (opts_step ''true'' CheckThemAndDiff ?o)"
    by (simp add: check_them_and_diff_def drop_missing_cols_setChecked_def)
  note t = drop_missing_cols_needs_dont_drop [OF a, of "''true''" "[ClickDropMissingCols]" ?p CheckThemAndDiff]
  from t n have 1: "click_drop_missing_cols ?o = ?o"
    by blast
  from t have 2: "drop_missing_cols_constr_chk (selectPreset ''true'' ?p ?o) =
      (DontDropMissingObjs ?p = ''true'' \<and> DropMissingColsConstrs ?p = ''true'')"
    by blast
  from t n s have 3: "dont_drop_missing_objs_chk (opts_step ''true'' CheckThemAndDiff ?o)"
    by blast
  from 1 2 3 show ?thesis
    unfolding o by simp
qed

subsection \<open>Filters generated from the change log\<close>

lemma replace_child_filter_clean: "\<not> mentions name (replace_child_filter name f)"
proof (induction f)
  case Nil
  show ?case by simp
next
  case (Cons c cs)
  show ?case
  proof (cases "prefix (name @ '':'') (c # cs) \<and> length name + 1 < length (c # cs)")
    case True
    then show ?thesis by simp
  next
    case False
    have len: "length (replace_child_filter name g) \<le> length g" for g
      by (induction g) auto
    have pre: "prefix (replace_child_filter name g) g" for g
      by (induction g) auto
    have "\<not> (prefix (name @ '':'') (c # replace_child_filter name cs) \<and>
              length name + 1 < length (c # replace_child_filter name cs))"
    proof
      assume a: "prefix (name @ '':'') (c # replace_child_filter name cs) \<and>
              length name + 1 < length (c # replace_child_filter name cs)"
      have "prefix (c # replace_child_filter name cs) (c # cs)"
        using pre [of cs] by simp
      with a have "prefix (name @ '':'') (c # cs)"
        using prefix_order.order_trans by blast
      moreover from a len [of cs] have "length name + 1 < length (c # cs)"
        by simp
      ultimately show False
        using False by blast
    qed
    with Cons False show ?thesis
      by simp
  qed
qed

lemma replace_child_filter_prefix: "prefix (replace_child_filter name f) f"
  by (induction f) auto

lemma replace_child_filter_id: "\<not> mentions name f \<Longrightarrow> replace_child_filter name f = f"
  by (induction f) auto

lemma mentions_prefix: "prefix g f \<Longrightarrow> mentions name g \<Longrightarrow> mentions name f"
proof (induction g arbitrary: f)
  case Nil
  then show ?case by simp
next
  case (Cons c g)
  from Cons.prems(1) obtain f' where f: "f = c # f'" and p: "prefix g f'"
    by (cases f) auto
  show ?case
  proof (cases "prefix (name @ '':'') (c # g) \<and> length name + 1 < length (c # g)")
    case True
    with Cons.prems(1) have "prefix (name @ '':'') f"
      using prefix_order.order_trans by blast
    moreover from True Cons.prems(1) have "length name + 1 < length f"
      using prefix_length_le by fastforce
    ultimately show ?thesis
      unfolding f by simp
  next
    case False
    with Cons.prems(2) have "mentions name g"
      by auto
    with Cons.IH [OF p] show ?thesis
      unfolding f by simp
  qed
qed

lemma replaceInStrings_map:
  "replaceInStrings names fs = map (\<lambda>f. fold replace_child_filter names f) fs"
  by (induction names arbitrary: fs) (simp_all add: comp_def)

lemma fold_replace_prefix: "prefix (fold replace_child_filter names f) f"
proof (induction names arbitrary: f)
  case Nil
  show ?case by simp
next
  case (Cons n ns)
  have "prefix (fold replace_child_filter ns (replace_child_filter n f)) (replace_child_filter n f)"
    by (rule Cons.IH)
  then show ?case
    using replace_child_filter_prefix [of n f] prefix_order.order_trans by fastforce
qed

lemma fold_replace_clean:
  "name \<in> set names \<Longrightarrow> \<not> mentions name (fold replace_child_filter names f)"
proof (induction names arbitrary: f)
  case Nil
  then show ?case by simp
next
  case (Cons n ns)
  show ?case
  proof (cases "name \<in> set ns")
    case True
    then show ?thesis
      using Cons.IH by simp
  next
    case False
    with Cons.prems have n: "n = name"
      by simp
    have "\<not> mentions name (replace_child_filter name f)"
      by (rule replace_child_filter_clean)
    then have "\<not> mentions name (fold replace_child_filter ns (replace_child_filter name f))"
      using mentions_prefix [OF fold_replace_prefix] by blast
    then show ?thesis
      unfolding n by simp
  qed
qed

lemma fold_replace_id:
  "\<forall>name \<in> set names. \<not> mentions name f \<Longrightarrow> fold replace_child_filter names f = f"
  by (induction names) (simp_all add: replace_child_filter_id)

lemma child_filter_mentions:
  "child_filter names f \<Longrightarrow> \<exists>name \<in> set names. mentions name f"
  by (cases f) (auto simp: child_filter_def)

text \<open>
  C4.  Of the filters generated from the change log, the list handed to the filter
  widget contains no empty string and no filter that targets a child type of a table;
  so no generated filter for a column, constraint, index, trigger or rule is among the
  filters added.
\<close>

theorem changelog_child_filters_removed:
  assumes "generateFiltersFromChangelog has_model tab_obj_types changelog_filters = Some added"
  shows "(\<forall>f \<in> set added. f \<noteq> [] \<and> \<not> child_filter tab_obj_types f) \<and>
         (\<forall>f \<in> set changelog_filters. child_filter tab_obj_types f \<longrightarrow> f \<notin> set added)"
proof -
  from assms have added:
    "added = filter (\<lambda>f. f \<noteq> []) (map (\<lambda>f. fold replace_child_filter tab_obj_types f) changelog_filters)"
    by (simp add: generateFiltersFromChangelog_def replaceInStrings_map split: if_splits)
  have 1: "f \<noteq> [] \<and> \<not> child_filter tab_obj_types f" if "f \<in> set added" for f
  proof -
    from that added obtain g where "f = fold replace_child_filter tab_obj_types g" and "f \<noteq> []"
      by auto
    then show ?thesis
      using fold_replace_clean child_filter_mentions by blast
  qed
  then show ?thesis
    by blast
qed

theorem changelog_child_filters_removed_witness:
  "generateFiltersFromChangelog True table_child_types
      [''table:public.t:wildcard'', ''column:public.t.c:wildcard'', ''index:public.i:wildcard''] =
     Some [''table:public.t:wildcard''] \<and>
   child_filter table_child_types ''column:public.t.c:wildcard'' \<and>
   \<not> child_filter table_child_types ''table:public.t:wildcard''"
proof -
  let ?in = "[''table:public.t:wildcard'', ''column:public.t.c:wildcard'', ''index:public.i:wildcard'']"
  have g: "generateFiltersFromChangelog True table_child_types ?in = Some [''table:public.t:wildcard'']"
    by (simp add: generateFiltersFromChangelog_def table_child_types_def)
  have c: "child_filter table_child_types ''column:public.t.c:wildcard''"
    by (simp add: child_filter_def table_child_types_def)
  from changelog_child_filters_removed [OF g]
  have "\<not> child_filter table_child_types ''table:public.t:wildcard''"
    by simp
  with g c show ?thesis
    by blast
qed

text \<open>
  A filter in which no child type is mentioned is added unchanged.  Since the expression
  is not anchored, a filter of another type that mentions a child type further to the
  right is cut there: the filter of a table named \<^verbatim>\<open>price_index\<close> loses its end.
\<close>

lemma changelog_filter_unchanged:
  assumes "f \<noteq> []" and "f \<in> set fs" and "\<forall>name \<in> set names. \<not> mentions name f"
  shows "f \<in> set (the (generateFiltersFromChangelog True names fs))"
proof -
  from assms(3) have "fold replace_child_filter names f = f"
    by (rule fold_replace_id)
  with assms(2) have "f \<in> set (map (\<lambda>f. fold replace_child_filter names f) fs)"
    by force
  with assms(1) show ?thesis
    by (simp add: generateFiltersFromChangelog_def replaceInStrings_map)
qed

lemma changelog_filter_cut:
  "generateFiltersFromChangelog True table_child_types [''table:public.price_index:wildcard''] =
     Some [''table:public.price_'']"
  by (simp add: generateFiltersFromChangelog_def table_child_types_def)

subsection \<open>A diff run\<close>

lemma generateDiff_eq:
  "generateDiff st =
     Some (st\<lparr>src_import_thread := (if src_database_rb st then Running else Null),
              import_thread := (if src_database_rb st then Null else Running),
              diff_thread := Null, export_thread := Null,
              step_pb := 0, step_pb_values := step_pb_values st @ [0],
              progress_pb := 0, curr_step := 1,
              total_steps := (if src_model_rb st then 3 else 4),
              cancel_btn := True, close_btn := False\<rparr>)"
proof -
  have d: "destroyThread ExportThread (destroyThread DiffThread
            (destroyThread ImportThread (destroyThread SrcImportThread st))) =
        st\<lparr>src_import_thread := Null, import_thread := Null, diff_thread := Null,
           export_thread := Null\<rparr>"
    by (cases "src_import_thread st = Null"; cases "import_thread st = Null";
        cases "diff_thread st = Null"; cases "export_thread st = Null";
        simp add: destroyThread_def)
  show ?thesis
    unfolding generateDiff_def d
    by (simp add: clearOutput_def importDatabase_def createThread_def step_pb_setValue_def
        pb_setValue_def Let_def)
qed

lemma handleImportFinished_src:
  "src_import_thread st = Running \<Longrightarrow>
   handleImportFinished st =
     Some (st\<lparr>curr_step := curr_step st + 1, src_import_thread := Finished,
              import_thread := Running\<rparr>)"
  by (simp add: handleImportFinished_def importDatabase_def createThread_def Let_def)

lemma handleImportFinished_import:
  "src_import_thread st \<noteq> Running \<Longrightarrow>
   handleImportFinished st =
     Some (st\<lparr>curr_step := curr_step st + 1, import_thread := quit (import_thread st),
              diff_thread := Running, diff_progress := step_pb st\<rparr>)"
  by (simp add: handleImportFinished_def diffModels_def createThread_def Let_def)

lemma exportDiff_eq:
  "exportDiff confirm res st =
     (if \<not> confirm \<or> res = Accepted
      then st\<lparr>export_thread := Running, apply_on_server_btn_enabled := True,
              diff_progress := step_pb st, close_btn := False\<rparr>
      else if res = Cancelled
      then st\<lparr>src_import_thread := quit (src_import_thread st),
              import_thread := quit (import_thread st),
              diff_thread := quit (diff_thread st),
              export_thread := Created,
              cancel_btn := False, apply_on_server_btn_visible := False,
              process_paused := False, close_btn := True\<rparr>
      else st\<lparr>export_thread := Created, process_paused := True, close_btn := True,
              apply_on_server_btn_visible := True\<rparr>)"
  by (simp add: exportDiff_def createThread_def cancelOperation_eq Let_def)

lemma saveDiffToFile_eq:
  "saveDiffToFile st =
     st\<lparr>src_import_thread := quit (src_import_thread st),
        import_thread := quit (import_thread st),
        diff_thread := quit (diff_thread st),
        export_thread := quit (export_thread st),
        cancel_btn := False, apply_on_server_btn_visible := False,
        process_paused := False, close_btn := True,
        step_pb := 100,
        step_pb_values :=
          step_pb_values st @ (if sqlcode_txt st \<noteq> [] then [90, 100] else [100]),
        progress_pb := 100,
        saved_file := (if sqlcode_txt st \<noteq> [] then Some (sqlcode_txt st) else saved_file st)\<rparr>"
  by (simp add: saveDiffToFile_def finishDiff_eq step_pb_setValue_def pb_setValue_def)

lemma quit_simps:
  "quit t \<noteq> Running" "(quit t = Null) = (t = Null)" "(quit t = Created) = (t = Created)"
  "(quit t = Finished) = (t = Running \<or> t = Finished)"
  by (cases t; simp)+

lemma handleDiffFinished_threads:
  "diff_thread (handleDiffFinished script res st) = quit (diff_thread st) \<and>
   (src_import_thread (handleDiffFinished script res st) = src_import_thread st \<or>
    src_import_thread (handleDiffFinished script res st) = quit (src_import_thread st)) \<and>
   (import_thread (handleDiffFinished script res st) = import_thread st \<or>
    import_thread (handleDiffFinished script res st) = quit (import_thread st))"
  by (cases res; cases "store_in_file_rb st"; cases "script = []";
      simp add: handleDiffFinished_def saveDiffToFile_eq finishDiff_eq exportDiff_eq quit_quit Let_def)

lemma sequential_quit:
  assumes "sequential st"
    and "src_import_thread st1 = src_import_thread st \<or> src_import_thread st1 = quit (src_import_thread st)"
    and "import_thread st1 = import_thread st \<or> import_thread st1 = quit (import_thread st)"
    and "diff_thread st1 = diff_thread st \<or> diff_thread st1 = quit (diff_thread st)"
  shows "sequential st1"
  using assms unfolding sequential_def
  by (cases "src_import_thread st"; cases "import_thread st"; cases "diff_thread st"; auto)

lemma cancelOperation_threads:
  "src_import_thread (cancelOperation b st) = quit (src_import_thread st)"
  "import_thread (cancelOperation b st) = quit (import_thread st)"
  "diff_thread (cancelOperation b st) = quit (diff_thread st)"
  by (simp_all add: cancelOperation_eq)

lemma closeEvent_threads3:
  "(src_import_thread (fst (closeEvent st)) = src_import_thread st \<or>
    src_import_thread (fst (closeEvent st)) = quit (src_import_thread st)) \<and>
   (import_thread (fst (closeEvent st)) = import_thread st \<or>
    import_thread (fst (closeEvent st)) = quit (import_thread st)) \<and>
   (diff_thread (fst (closeEvent st)) = diff_thread st \<or>
    diff_thread (fst (closeEvent st)) = quit (diff_thread st))"
  by (cases "isThreadsRunning st"; cases "process_paused st";
      simp add: closeEvent_def cancelOperation_not_running cancelOperation_threads)

lemma step_sequential:
  assumes "sequential st" and "step e st = Some st1" and "e \<noteq> GenerateDiff"
  shows "sequential st1"
proof (cases e)
  case GenerateDiff
  with assms show ?thesis by simp
next
  case ImportFinished
  show ?thesis
  proof (cases "src_import_thread st = Running")
    case True
    with assms(2) ImportFinished
    have "st1 = st\<lparr>curr_step := curr_step st + 1, src_import_thread := Finished,
              import_thread := Running\<rparr>"
      by (simp add: handleImportFinished_src)
    with assms(1) True show ?thesis
      by (auto simp: sequential_def)
  next
    case False
    with assms(2) ImportFinished
    have "import_thread st = Running" and
      "st1 = st\<lparr>curr_step := curr_step st + 1, import_thread := quit (import_thread st),
              diff_thread := Running, diff_progress := step_pb st\<rparr>"
      by (simp_all add: handleImportFinished_import split: if_splits)
    with assms(1) show ?thesis
      by (auto simp: sequential_def)
  qed
next
  case (DiffFinished script res)
  with assms(2) have "st1 = handleDiffFinished script res st"
    by (simp split: if_splits)
  with handleDiffFinished_threads [of script res st] assms(1) show ?thesis
    by (intro sequential_quit [of st st1]) simp_all
next
  case ExportFinished
  with assms(2) have "st1 = handleExportFinished st"
    by (simp split: if_splits)
  with assms(1) show ?thesis
    by (intro sequential_quit [of st st1]) (simp_all add: handleExportFinished_def finishDiff_eq)
next
  case (UpdateProgress p)
  with assms(2) have "st1 = updateProgress p st"
    by simp
  with assms(1) show ?thesis
    by (intro sequential_quit [of st st1])
      (simp_all add: updateProgress_def step_pb_setValue_def Let_def)
next
  case CancelClicked
  with assms show ?thesis
    by (intro sequential_quit [of st st1]) (auto simp: cancelOperation_threads)
next
  case ThreadError
  with assms show ?thesis
    by (intro sequential_quit [of st st1]) (auto simp: cancelOperation_threads)
next
  case ApplyClicked
  with assms(2) have "st1 = apply_on_server_clicked st"
    by (simp split: if_splits)
  with assms(1) show ?thesis
    by (intro sequential_quit [of st st1])
      (simp_all add: apply_on_server_clicked_def exportDiff_eq Let_def)
next
  case CloseRequested
  with assms(2) have "st1 = fst (closeEvent st)"
    by simp
  with assms(1) closeEvent_threads3 [of st] show ?thesis
    by (intro sequential_quit [of st st1]) simp_all
qed

lemma run_sequential:
  "sequential st \<Longrightarrow> GenerateDiff \<notin> set es \<Longrightarrow> run es st = Some st1 \<Longrightarrow> sequential st1"
proof (induction es arbitrary: st)
  case Nil
  then show ?case by simp
next
  case (Cons e es)
  from Cons.prems(3) obtain st2 where s: "step e st = Some st2" and r: "run es st2 = Some st1"
    by (auto split: option.splits)
  from Cons.prems(1) s Cons.prems(2) have "sequential st2"
    by (intro step_sequential [of st e st2]) auto
  with Cons.IH r Cons.prems(2) show ?case
    by simp
qed

lemma sdiv_percent:
  "p \<le> 100 \<Longrightarrow> (p::int) sdiv 5 \<le> 20 \<and> p sdiv 4 \<le> 25 \<and> p sdiv 3 \<le> 33"
  by (cases "0 \<le> p") (auto simp: signed_divide_int_def sgn_if)

lemma updateProgress_monotone: "step_pb st \<le> step_pb (updateProgress p st)"
  by (simp add: updateProgress_def step_pb_setValue_def pb_setValue_def Let_def)

lemma updateProgress_values:
  "step_pb_values (updateProgress p st) = step_pb_values st \<and>
     step_pb (updateProgress p st) = step_pb st \<or>
   step_pb_values (updateProgress p st) = step_pb_values st @ [step_pb (updateProgress p st)]"
  by (simp add: updateProgress_def step_pb_setValue_def Let_def)

lemma updateProgress_inv:
  assumes "progress_inv st" and "p \<le> 100"
  shows "progress_inv (updateProgress p st)"
proof -
  define aux where "aux =
            (if isRunning (src_import_thread st) then p sdiv 5
             else if isRunning (import_thread st)
                  then (if src_model_rb st then p sdiv 4 else 20 + p sdiv 5)
             else if isRunning (diff_thread st) then diff_progress st + p sdiv 3
             else if isRunning (export_thread st) then diff_progress st + p sdiv 3
             else 0)"
  define v where "v = (if aux > step_pb st then pb_setValue aux (step_pb st) else step_pb st)"
  have u: "updateProgress p st =
      st\<lparr>step_pb := v,
         step_pb_values := step_pb_values st @ (if aux > step_pb st then [v] else []),
         progress_pb := pb_setValue p (progress_pb st)\<rparr>"
    by (simp add: updateProgress_def step_pb_setValue_def Let_def v_def aux_def)
  have b: "v \<le> 100"
    using assms(1) by (simp add: v_def pb_setValue_def progress_inv_def)
  have c: "v \<le> max (step_pb st) aux"
    by (simp add: v_def pb_setValue_def)
  have s: "src_import_thread st = Running \<Longrightarrow> v \<le> 20"
    using assms sdiv_percent [of p] c by (auto simp: progress_inv_def aux_def max_def split: if_splits)
  have i: "import_thread st = Running \<Longrightarrow> v \<le> 40"
    using assms sdiv_percent [of p] c by (auto simp: progress_inv_def aux_def max_def split: if_splits)
  have d: "diff_thread st = Running \<Longrightarrow> v \<le> 73"
    using assms sdiv_percent [of p] c by (auto simp: progress_inv_def aux_def max_def split: if_splits)
  from assms(1) b s i d show ?thesis
    unfolding u progress_inv_def by simp
qed

lemma sorted_le_last: "sorted xs \<Longrightarrow> x \<in> set xs \<Longrightarrow> x \<le> (last xs :: int)"
  by (induction xs) (auto split: if_splits)

lemma bar_history_append:
  assumes "bar_history init st"
    and "step_pb_values st1 = step_pb_values st @ ws"
    and "sorted (step_pb st # ws)"
    and "step_pb st1 = last (step_pb st # ws)"
  shows "bar_history init st1"
proof -
  let ?k = "length init - 1"
  from assms(1) have n: "init \<noteq> []"
    and p: "prefix init (step_pb_values st)"
    and o: "sorted (drop ?k (step_pb_values st))"
    and l: "last (step_pb_values st) = step_pb st"
    by (simp_all add: bar_history_def)
  from p have "length init \<le> length (step_pb_values st)"
    by (rule prefix_length_le)
  with n have k: "?k < length (step_pb_values st)"
    by (cases init) simp_all
  from k have ld: "last (drop ?k (step_pb_values st)) = step_pb st"
    using l by simp
  have "x \<le> y" if "x \<in> set (drop ?k (step_pb_values st))" and "y \<in> set ws" for x y
  proof -
    from o that(1) have "x \<le> step_pb st"
      using sorted_le_last ld by fastforce
    moreover from assms(3) that(2) have "step_pb st \<le> y"
      by simp
    ultimately show ?thesis
      by simp
  qed
  with o assms(3) have "sorted (drop ?k (step_pb_values st) @ ws)"
    by (simp add: sorted_append)
  with k have 1: "sorted (drop ?k (step_pb_values st1))"
    unfolding assms(2) by simp
  from p have 2: "prefix init (step_pb_values st1)"
    unfolding assms(2) by (rule prefix_prefix)
  from l assms(4) have 3: "last (step_pb_values st1) = step_pb st1"
    unfolding assms(2) using k by (cases ws) auto
  from n 1 2 3 show ?thesis
    unfolding bar_history_def by simp
qed

lemma bar_history_same:
  "bar_history init st \<Longrightarrow> step_pb_values st1 = step_pb_values st \<Longrightarrow>
   step_pb st1 = step_pb st \<Longrightarrow> bar_history init st1"
  by (simp add: bar_history_def)

lemma step_progress:
  assumes "progress_inv st" and "bar_history init st"
    and "step e st = Some st1" and "e \<noteq> GenerateDiff"
    and "\<forall>p. e = UpdateProgress p \<longrightarrow> p \<le> 100"
  shows "progress_inv st1 \<and> bar_history init st1"
proof (cases e)
  case GenerateDiff
  with assms show ?thesis by simp
next
  case ImportFinished
  show ?thesis
  proof (cases "src_import_thread st = Running")
    case True
    with assms(3) ImportFinished
    have s: "st1 = st\<lparr>curr_step := curr_step st + 1, src_import_thread := Finished,
              import_thread := Running\<rparr>"
      by (simp add: handleImportFinished_src)
    from assms(1) True have "progress_inv st1"
      unfolding s by (auto simp: progress_inv_def)
    moreover from assms(2) have "bar_history init st1"
      unfolding s by (simp add: bar_history_def)
    ultimately show ?thesis
      by simp
  next
    case False
    with assms(3) ImportFinished
    have r: "import_thread st = Running" and
      s: "st1 = st\<lparr>curr_step := curr_step st + 1, import_thread := quit (import_thread st),
              diff_thread := Running, diff_progress := step_pb st\<rparr>"
      by (simp_all add: handleImportFinished_import split: if_splits)
    from assms(1) False r have "progress_inv st1"
      unfolding s by (auto simp: progress_inv_def)
    moreover from assms(2) have "bar_history init st1"
      unfolding s by (simp add: bar_history_def)
    ultimately show ?thesis
      by simp
  qed
next
  case (DiffFinished script res)
  with assms(3) have r: "diff_thread st = Running" and s: "st1 = handleDiffFinished script res st"
    by (simp_all split: if_splits)
  from assms(1) r have b: "step_pb st \<le> 73" "step_pb st \<le> 100"
    "src_import_thread st \<noteq> Running" "import_thread st \<noteq> Running"
    by (auto simp: progress_inv_def)
  have i: "progress_inv st1"
    unfolding s using b r
    by (cases res; cases "store_in_file_rb st"; cases "script = []";
        simp add: handleDiffFinished_def saveDiffToFile_eq finishDiff_eq exportDiff_eq
          progress_inv_def quit_simps Let_def)
  have w: "step_pb_values st1 = step_pb_values st \<and> step_pb st1 = step_pb st \<or>
      step_pb_values st1 = step_pb_values st @ [100] \<and> step_pb st1 = 100 \<or>
      step_pb_values st1 = step_pb_values st @ [90, 100] \<and> step_pb st1 = 100"
    unfolding s
    by (cases res; cases "store_in_file_rb st"; cases "script = []";
        simp add: handleDiffFinished_def saveDiffToFile_eq finishDiff_eq exportDiff_eq Let_def)
  from w consider
      (same) "step_pb_values st1 = step_pb_values st" "step_pb st1 = step_pb st"
    | (finish) "step_pb_values st1 = step_pb_values st @ [100]" "step_pb st1 = 100"
    | (save) "step_pb_values st1 = step_pb_values st @ [90, 100]" "step_pb st1 = 100"
    by blast
  then have "bar_history init st1"
  proof cases
    case same
    with assms(2) show ?thesis
      by (rule bar_history_same)
  next
    case finish
    with b show ?thesis
      by (intro bar_history_append [OF assms(2), where ws = "[100]"]) simp_all
  next
    case save
    with b show ?thesis
      by (intro bar_history_append [OF assms(2), where ws = "[90, 100]"]) simp_all
  qed
  with i show ?thesis
    by simp
next
  case ExportFinished
  with assms(3) have s: "st1 = handleExportFinished st"
    by (simp split: if_splits)
  from assms(1) have "progress_inv st1"
    unfolding s by (simp add: handleExportFinished_def finishDiff_eq progress_inv_def quit_simps)
  moreover from assms(1) have "step_pb st \<le> 100"
    by (simp add: progress_inv_def)
  then have "bar_history init st1"
    by (intro bar_history_append [OF assms(2), where ws = "[100]"])
      (simp_all add: s handleExportFinished_def finishDiff_eq)
  ultimately show ?thesis
    by simp
next
  case (UpdateProgress p)
  with assms(3) have s: "st1 = updateProgress p st"
    by simp
  from assms(5) UpdateProgress have "p \<le> 100"
    by simp
  with assms(1) have i: "progress_inv st1"
    unfolding s by (simp add: updateProgress_inv)
  from updateProgress_values [of p st] consider
      (same) "step_pb_values st1 = step_pb_values st" "step_pb st1 = step_pb st"
    | (written) "step_pb_values st1 = step_pb_values st @ [step_pb st1]"
    unfolding s by blast
  then have "bar_history init st1"
  proof cases
    case same
    with assms(2) show ?thesis
      by (rule bar_history_same)
  next
    case written
    moreover have "step_pb st \<le> step_pb st1"
      unfolding s by (rule updateProgress_monotone)
    ultimately show ?thesis
      by (intro bar_history_append [OF assms(2), where ws = "[step_pb st1]"]) simp_all
  qed
  with i show ?thesis
    by simp
next
  case CancelClicked
  with assms(3) have s: "st1 = cancelOperation True st"
    by simp
  from assms(1,2) show ?thesis
    unfolding s by (simp add: cancelOperation_eq progress_inv_def bar_history_def quit_simps)
next
  case ThreadError
  with assms(3) have s: "st1 = cancelOperation False st"
    by simp
  from assms(1,2) show ?thesis
    unfolding s by (simp add: cancelOperation_eq progress_inv_def bar_history_def quit_simps)
next
  case ApplyClicked
  with assms(3) have v: "apply_on_server_btn_visible st" and s: "st1 = apply_on_server_clicked st"
    by (simp_all split: if_splits)
  with assms(1,2) show ?thesis
    by (simp add: apply_on_server_clicked_def exportDiff_eq progress_inv_def bar_history_def
        Let_def)
next
  case CloseRequested
  with assms(3) have s: "st1 = fst (closeEvent st)"
    by simp
  with assms(1,2) show ?thesis
    by (cases "isThreadsRunning st"; cases "process_paused st";
        simp add: closeEvent_def cancelOperation_not_running cancelOperation_eq
          progress_inv_def bar_history_def quit_simps)
qed

lemma run_progress:
  "progress_inv st \<Longrightarrow> bar_history init st \<Longrightarrow> GenerateDiff \<notin> set es \<Longrightarrow>
   \<forall>p. UpdateProgress p \<in> set es \<longrightarrow> p \<le> 100 \<Longrightarrow> run es st = Some st1 \<Longrightarrow>
   progress_inv st1 \<and> bar_history init st1"
proof (induction es arbitrary: st)
  case Nil
  then show ?case by simp
next
  case (Cons e es)
  from Cons.prems(5) obtain st2 where s: "step e st = Some st2" and r: "run es st2 = Some st1"
    by (auto split: option.splits)
  from Cons.prems(1,2) s Cons.prems(3,4) have "progress_inv st2 \<and> bar_history init st2"
    by (intro step_progress [of st init e st2]) auto
  with Cons.IH [of st2] r Cons.prems(3,4) show ?case
    by simp
qed

lemma generateDiff_bar_history:
  "generateDiff st = Some st1 \<Longrightarrow> bar_history (step_pb_values st @ [0]) st1"
  by (auto simp: generateDiff_eq bar_history_def)

lemma generateDiff_progress_inv:
  "\<not> apply_on_server_btn_visible st \<Longrightarrow> generateDiff st = Some st1 \<Longrightarrow> progress_inv st1"
  by (auto simp: generateDiff_eq progress_inv_def split: if_splits)

lemma generateDiff_sequential:
  "src_database_rb st \<Longrightarrow> generateDiff st = Some st1 \<Longrightarrow> sequential st1"
  by (auto simp: generateDiff_eq sequential_def split: if_splits)

text \<open>
  C6.  Take a run between two databases: \<^verbatim>\<open>generateDiff\<close> with the source database
  selected, followed by any events other than a new \<^verbatim>\<open>generateDiff\<close>.  In every state of
  the run the two import threads do not run together; the target import thread exists
  only when the source import thread has finished, and the diff thread only when both
  have finished.  While the source import runs, its finishing signal makes
  \<^verbatim>\<open>handleImportFinished\<close> quit the source thread and start the target import, the diff
  thread still absent; while the target import runs, its finishing signal quits it and
  starts the diff.
\<close>

theorem imports_never_concurrent:
  assumes "src_database_rb st0" and "generateDiff st0 = Some st1"
    and "GenerateDiff \<notin> set es" and "run es st1 = Some st"
  shows "\<not> (isRunning (src_import_thread st) \<and> isRunning (import_thread st)) \<and>
         (import_thread st \<noteq> Null \<longrightarrow> src_import_thread st = Finished) \<and>
         (diff_thread st \<noteq> Null \<longrightarrow>
            src_import_thread st = Finished \<and> import_thread st = Finished) \<and>
         (isRunning (src_import_thread st) \<longrightarrow>
            map_option (\<lambda>s. (src_import_thread s, import_thread s, diff_thread s))
              (step ImportFinished st) = Some (Finished, Running, Null)) \<and>
         (isRunning (import_thread st) \<longrightarrow>
            map_option (\<lambda>s. (src_import_thread s, import_thread s, diff_thread s))
              (step ImportFinished st) = Some (Finished, Finished, Running))"
proof -
  from assms(1,2) have "sequential st1"
    by (rule generateDiff_sequential)
  from this assms(3,4) have q: "sequential st"
    by (rule run_sequential)
  have a: "map_option (\<lambda>s. (src_import_thread s, import_thread s, diff_thread s))
              (step ImportFinished st) = Some (Finished, Running, Null)"
    if "isRunning (src_import_thread st)"
    using that q by (auto simp: handleImportFinished_src sequential_def)
  have b: "map_option (\<lambda>s. (src_import_thread s, import_thread s, diff_thread s))
              (step ImportFinished st) = Some (Finished, Finished, Running)"
    if "isRunning (import_thread st)"
    using that q by (auto simp: handleImportFinished_import sequential_def)
  from q a b show ?thesis
    unfolding sequential_def by auto
qed

theorem imports_never_concurrent_witness:
  "src_import_thread (the (run [UpdateProgress 50, ImportFinished, UpdateProgress 50]
      (the (generateDiff db_form)))) = Finished \<and>
   import_thread (the (run [UpdateProgress 50, ImportFinished, UpdateProgress 50]
      (the (generateDiff db_form)))) = Running \<and>
   map_option (\<lambda>s. (src_import_thread s, import_thread s, diff_thread s))
     (step ImportFinished (the (run [UpdateProgress 50, ImportFinished, UpdateProgress 50]
      (the (generateDiff db_form))))) = Some (Finished, Finished, Running)"
proof -
  define st1 where "st1 = db_form\<lparr>src_import_thread := Running, curr_step := 1, total_steps := 4,
      step_pb_values := [0], cancel_btn := True, close_btn := False\<rparr>"
  define st where "st = st1\<lparr>src_import_thread := Finished, import_thread := Running,
      curr_step := 2, step_pb := 30, step_pb_values := [0, 10, 30], progress_pb := 50\<rparr>"
  have d: "src_database_rb db_form"
    by (simp add: db_form_def)
  have g: "generateDiff db_form = Some st1"
    by (simp add: generateDiff_eq st1_def db_form_def new_form_def)
  have n: "GenerateDiff \<notin> set [UpdateProgress 50, ImportFinished, UpdateProgress 50]"
    by simp
  have r: "run [UpdateProgress 50, ImportFinished, UpdateProgress 50] st1 = Some st"
    by (simp add: st_def st1_def db_form_def new_form_def updateProgress_def
        handleImportFinished_src step_pb_setValue_def pb_setValue_def signed_divide_int_def
        Let_def)
  have i: "import_thread st = Running"
    by (simp add: st_def)
  have i': "import_thread st \<noteq> Null" "isRunning (import_thread st)"
    by (simp_all add: i)
  from imports_never_concurrent [OF d g n r] i'
  have "src_import_thread st = Finished \<and>
     map_option (\<lambda>s. (src_import_thread s, import_thread s, diff_thread s))
       (step ImportFinished st) = Some (Finished, Finished, Running)"
    by blast
  with i show ?thesis
    unfolding g r option.sel by blast
qed

text \<open>
  C10.  Take one run: \<^verbatim>\<open>generateDiff\<close>, called while the apply button is hidden
  (\<^verbatim>\<open>resetButtons\<close> hides it at the end of every run), followed by any events other
  than a new \<^verbatim>\<open>generateDiff\<close>, the helpers reporting at most 100 percent (the progress
  events of section 6 of the spec carry a percentage from 0 to 100).
  Then the values that the step bar takes from the start of the run on, every single
  write included, begin with 0 and are in ascending order, and the last of them is the
  value shown: the bar never moves backwards, neither between two slots nor between the
  two writes of \<^verbatim>\<open>saveDiffToFile\<close>.  And \<^verbatim>\<open>updateProgress\<close> never lowers the bar, in any
  state and for any progress value.
\<close>

theorem step_pb_never_decreases:
  assumes "\<not> apply_on_server_btn_visible st0" and "generateDiff st0 = Some st1"
    and "GenerateDiff \<notin> set es"
    and "\<forall>p. UpdateProgress p \<in> set es \<longrightarrow> p \<le> 100"
    and "run es st1 = Some st"
  shows "prefix (step_pb_values st0 @ [0]) (step_pb_values st) \<and>
         sorted (drop (length (step_pb_values st0)) (step_pb_values st)) \<and>
         last (step_pb_values st) = step_pb st \<and>
         step_pb s \<le> step_pb (updateProgress q s)"
proof -
  from assms(1,2) have i: "progress_inv st1"
    by (rule generateDiff_progress_inv)
  from assms(2) have b: "bar_history (step_pb_values st0 @ [0]) st1"
    by (rule generateDiff_bar_history)
  from i b assms(3,4,5) have "progress_inv st \<and> bar_history (step_pb_values st0 @ [0]) st"
    by (rule run_progress)
  then show ?thesis
    by (simp add: bar_history_def updateProgress_monotone)
qed

theorem step_pb_never_decreases_witness:
  "step_pb_values
     (the (run [UpdateProgress 100, ImportFinished, UpdateProgress 50,
                DiffFinished ''CREATE TABLE t();'' Accepted]
        (the (generateDiff file_form)))) = [0, 25, 41, 90, 100] \<and>
   sorted (drop (length (step_pb_values file_form))
     (step_pb_values
       (the (run [UpdateProgress 100, ImportFinished, UpdateProgress 50,
                  DiffFinished ''CREATE TABLE t();'' Accepted]
          (the (generateDiff file_form))))))"
proof -
  let ?es = "[UpdateProgress 100, ImportFinished, UpdateProgress 50,
              DiffFinished ''CREATE TABLE t();'' Accepted]"
  define st1 where "st1 = file_form\<lparr>import_thread := Running, curr_step := 1, total_steps := 3,
      step_pb_values := [0], cancel_btn := True, close_btn := False\<rparr>"
  define st where "st = st1\<lparr>import_thread := Finished, diff_thread := Finished,
      curr_step := 3, diff_progress := 25, step_pb := 100,
      step_pb_values := [0, 25, 41, 90, 100], progress_pb := 100,
      sqlcode_txt := ''CREATE TABLE t();'', saved_file := Some ''CREATE TABLE t();'',
      cancel_btn := False, close_btn := True\<rparr>"
  have v: "\<not> apply_on_server_btn_visible file_form"
    by (simp add: file_form_def new_form_def)
  have g: "generateDiff file_form = Some st1"
    by (simp add: generateDiff_eq st1_def file_form_def new_form_def)
  have n: "GenerateDiff \<notin> set ?es"
    by simp
  have p: "\<forall>p. UpdateProgress p \<in> set ?es \<longrightarrow> p \<le> 100"
    by auto
  have r: "run ?es st1 = Some st"
    by (simp add: st_def st1_def file_form_def new_form_def updateProgress_def
        handleImportFinished_import handleDiffFinished_def saveDiffToFile_eq
        step_pb_setValue_def pb_setValue_def signed_divide_int_def Let_def)
  have x: "step_pb_values st = [0, 25, 41, 90, 100]"
    by (simp add: st_def)
  from step_pb_never_decreases [OF v g n p r]
  have "sorted (drop (length (step_pb_values file_form)) (step_pb_values st))"
    by blast
  with x show ?thesis
    unfolding g r option.sel by simp
qed

subsection \<open>The log of ignored errors\<close>











end
